theory Spec2Isabelle
  imports Main "HOL-Library.AList"
begin

section \<open>Python primitives used by \<^verbatim>\<open>plant_leaves.py\<close>\<close>

text \<open>
  A Python \<^verbatim>\<open>dict\<close> keeps its keys in insertion order and holds each key once.
  It is modelled as an association list: \<open>AList.update\<close> is \<^verbatim>\<open>d[k] = v\<close> (a key already
  present keeps its position and takes the new value, a new key goes to the end),
  \<open>map_of\<close> is the lookup and the list itself is \<^verbatim>\<open>d.items()\<close>.
  Strings are \<open>string\<close>; a character is one of the 256 code points of Latin-1.
\<close>

type_synonym ('k, 'v) dict = "('k \<times> 'v) list"

datatype error = KeyError string | IndexError

definition contains :: "('k, 'v) dict \<Rightarrow> 'k \<Rightarrow> bool" where
  \<comment> \<open>\<^verbatim>\<open>k in d\<close>\<close>
  "contains d k = (map_of d k \<noteq> None)"

definition getitem :: "(string, 'v) dict \<Rightarrow> string \<Rightarrow> error + 'v" where
  \<comment> \<open>\<^verbatim>\<open>d[k]\<close>, which raises KeyError on a missing key\<close>
  "getitem d k = (case map_of d k of None \<Rightarrow> Inl (KeyError k) | Some v \<Rightarrow> Inr v)"

definition newline :: char where
  "newline = CHR 0x0A"

definition isspace :: "char \<Rightarrow> bool" where
  \<comment> \<open>\<^verbatim>\<open>str.isspace\<close> on one character, within Latin-1\<close>
  "isspace c = (c \<in> set [CHR 0x09, CHR 0x0A, CHR 0x0B, CHR 0x0C, CHR 0x0D,
                          CHR 0x1C, CHR 0x1D, CHR 0x1E, CHR 0x1F, CHR 0x20,
                          CHR 0x85, CHR 0xA0])"

definition strip :: "string \<Rightarrow> string" where
  \<comment> \<open>\<^verbatim>\<open>s.strip()\<close>: leading and trailing whitespace removed\<close>
  "strip s = rev (dropWhile isspace (rev (dropWhile isspace s)))"

fun rfind :: "string \<Rightarrow> char \<Rightarrow> int" where
  \<comment> \<open>\<^verbatim>\<open>s.rfind(c)\<close>: the highest index of \<open>c\<close> in \<open>s\<close>, or -1\<close>
  "rfind [] c = -1"
| "rfind (x # xs) c =
     (let r = rfind xs c in if 0 \<le> r then r + 1 else if x = c then 0 else -1)"

definition basename :: "string \<Rightarrow> string" where
  \<comment> \<open>\<^verbatim>\<open>os.path.basename\<close> (posixpath): \<^verbatim>\<open>i = p.rfind('/') + 1; return p[i:]\<close>\<close>
  "basename p = (let i = rfind p (CHR ''/'') + 1 in drop (nat i) p)"

definition uplus :: "int \<Rightarrow> int" where
  \<comment> \<open>the unary plus of Python, \<^verbatim>\<open>+x\<close>, on an int\<close>
  "uplus x = x"

section \<open>Module constants\<close>

definition LABEL_MAPPING :: "(string \<times> string) list" where
  "LABEL_MAPPING =
    [(''0014'', ''Alstonia Scholaris (P2) diseased''),
     (''0003'', ''Alstonia Scholaris (P2) healthy''),
     (''0013'', ''Arjun (P1) diseased''),
     (''0002'', ''Arjun (P1) healthy''),
     (''0016'', ''Bael (P4) diseased''),
     (''0008'', ''Basil (P8) healthy''),
     (''0022'', ''Chinar (P11) diseased''),
     (''0011'', ''Chinar (P11) healthy''),
     (''0015'', ''Gauva (P3) diseased''),
     (''0004'', ''Gauva (P3) healthy''),
     (''0017'', ''Jamun (P5) diseased''),
     (''0005'', ''Jamun (P5) healthy''),
     (''0018'', ''Jatropha (P6) diseased''),
     (''0006'', ''Jatropha (P6) healthy''),
     (''0021'', ''Lemon (P10) diseased''),
     (''0010'', ''Lemon (P10) healthy''),
     (''0012'', ''Mango (P0) diseased''),
     (''0001'', ''Mango (P0) healthy''),
     (''0020'', ''Pomegranate (P9) diseased''),
     (''0009'', ''Pomegranate (P9) healthy''),
     (''0019'', ''Pongamia Pinnata (P7) diseased''),
     (''0007'', ''Pongamia Pinnata (P7) healthy'')]"

definition MAX_DOWNLOAD_RETRY :: int where
  "MAX_DOWNLOAD_RETRY = 10"

section \<open>\<^verbatim>\<open>PlantLeaves._split_generators\<close>\<close>

datatype split = TRAIN | VALIDATION | TEST

record 'p split_generator =
  name :: split
  num_shards :: nat
  gen_kwargs :: "(string, 'p) dict"

definition name_to_url_map :: "string list \<Rightarrow> (string, string) dict" where
  \<comment> \<open>\<^verbatim>\<open>{os.path.basename(l.strip()): l.strip() for l in f.readlines()}\<close>\<close>
  "name_to_url_map lines =
     fold (\<lambda>l d. AList.update (basename (strip l)) (strip l) d) lines []"

text \<open>
  The download manager is outside the module. \<open>download k m\<close> is what its call number \<open>k\<close>
  (counted from 0) does on the manifest \<open>m\<close>: \<open>Inl e\<close> when it raises \<open>e\<close>, \<open>Inr files\<close> when
  it returns. The loop carries the number of calls made so far next to the variable
  \<^verbatim>\<open>retry_count\<close> of the source. The statement \<^verbatim>\<open>++retry_count\<close> is an expression
  statement: it evaluates \<^verbatim>\<open>+(+retry_count)\<close> and drops the value, and \<^verbatim>\<open>retry_count\<close> is
  not assigned. A loop that never leaves is the value \<open>None\<close>.
\<close>

partial_function (option) retry_loop ::
  "(nat \<Rightarrow> (string, string) dict \<Rightarrow> 'e + (string, 'p) dict) \<Rightarrow> (string, string) dict
     \<Rightarrow> nat \<Rightarrow> int \<Rightarrow> (('e + (string, 'p) dict) \<times> nat) option" where
  "retry_loop download m calls retry_count =
     (case download calls m of
        Inr image_files \<Rightarrow> Some (Inr image_files, Suc calls)
      | Inl e \<Rightarrow>
          (let dropped = uplus (uplus retry_count) in
           if retry_count = MAX_DOWNLOAD_RETRY then Some (Inl e, Suc calls)
           else retry_loop download m (Suc calls) retry_count))"

definition split_generators ::
  "string list \<Rightarrow> (nat \<Rightarrow> (string, string) dict \<Rightarrow> 'e + (string, 'p) dict)
     \<Rightarrow> (('e + 'p split_generator list) \<times> nat) option" where
  "split_generators lines download =
     (case retry_loop download (name_to_url_map lines) 0 0 of
        None \<Rightarrow> None
      | Some (Inl e, calls) \<Rightarrow> Some (Inl e, calls)
      | Some (Inr image_files, calls) \<Rightarrow>
          Some (Inr [\<lparr>name = TRAIN, num_shards = 1, gen_kwargs = image_files\<rparr>], calls))"

section \<open>\<^verbatim>\<open>PlantLeaves._info\<close>\<close>

definition zip_star :: "('a \<times> 'a) list \<Rightarrow> 'a list list" where
  \<comment> \<open>\<^verbatim>\<open>list(zip(*pairs))\<close> on a list of 2-tuples: no tuple at all gives the empty list\<close>
  "zip_star pairs = (if pairs = [] then [] else [map fst pairs, map snd pairs])"

definition index :: "'a list \<Rightarrow> nat \<Rightarrow> error + 'a" where
  \<comment> \<open>\<^verbatim>\<open>xs[i]\<close> for \<open>i \<ge> 0\<close>, which raises IndexError out of range\<close>
  "index xs i = (if i < length xs then Inr (xs ! i) else Inl IndexError)"

definition info_labels :: "error + string list" where
  \<comment> \<open>\<^verbatim>\<open>labels = list(zip(*_LABEL_MAPPING))[1]\<close>, the names given to \<^verbatim>\<open>ClassLabel\<close>\<close>
  "info_labels = index (zip_star LABEL_MAPPING) 1"

section \<open>The regular expression of \<^verbatim>\<open>_generate_examples\<close>\<close>

text \<open>
  The pattern \<^verbatim>\<open>^(\d\d\d\d)_.*\.JPG$\<close> is a sequence of items, and \<^verbatim>\<open>regexp.match\<close> is a
  backtracking matcher over such a sequence, anchored at the start of the string and free
  at its end, as \<^verbatim>\<open>re.match\<close> is. No flag is given to \<^verbatim>\<open>re.compile\<close>: the dot matches
  every character but the newline, \<^verbatim>\<open>.*\<close> is greedy, and \<^verbatim>\<open>$\<close> matches at the end of
  the string and before a newline that ends it. The matcher returns what group 1 has
  captured, \<^verbatim>\<open>match.group(1)\<close>, and \<open>None\<close> when there is no match.
\<close>

datatype re_item = Bol | Eol | Digit | Lit char | DotStar | GroupOpen | GroupClose

definition isdigit :: "char \<Rightarrow> bool" where
  \<comment> \<open>\<^verbatim>\<open>\d\<close> on one character, within Latin-1\<close>
  "isdigit c = (c \<in> set ''0123456789'')"

fun re_run :: "re_item list \<Rightarrow> nat \<Rightarrow> bool \<Rightarrow> string \<Rightarrow> string \<Rightarrow> string option" where
  "re_run [] pos grp cap s = Some cap"
| "re_run (Bol # r) pos grp cap s = (if pos = 0 then re_run r pos grp cap s else None)"
| "re_run (Eol # r) pos grp cap s =
     (if s = [] \<or> s = [newline] then re_run r pos grp cap s else None)"
| "re_run (GroupOpen # r) pos grp cap s = re_run r pos True [] s"
| "re_run (GroupClose # r) pos grp cap s = re_run r pos False cap s"
| "re_run (Digit # r) pos grp cap [] = None"
| "re_run (Digit # r) pos grp cap (c # s) =
     (if isdigit c then re_run r (Suc pos) grp (if grp then cap @ [c] else cap) s else None)"
| "re_run (Lit a # r) pos grp cap [] = None"
| "re_run (Lit a # r) pos grp cap (c # s) =
     (if c = a then re_run r (Suc pos) grp (if grp then cap @ [c] else cap) s else None)"
| "re_run (DotStar # r) pos grp cap [] = re_run r pos grp cap []"
| "re_run (DotStar # r) pos grp cap (c # s) =
     (if c \<noteq> newline then
        (case re_run (DotStar # r) (Suc pos) grp (if grp then cap @ [c] else cap) s of
           Some g \<Rightarrow> Some g
         | None \<Rightarrow> re_run r pos grp cap (c # s))
      else re_run r pos grp cap (c # s))"

definition re_match :: "re_item list \<Rightarrow> string \<Rightarrow> string option" where
  "re_match r s = re_run r 0 False [] s"

definition regexp :: "re_item list" where
  \<comment> \<open>\<^verbatim>\<open>re.compile("^(\d\d\d\d)_.*\.JPG$")\<close>\<close>
  "regexp = [Bol, GroupOpen, Digit, Digit, Digit, Digit, GroupClose, Lit (CHR ''_''), DotStar,
             Lit (CHR ''.''), Lit (CHR ''J''), Lit (CHR ''P''), Lit (CHR ''G''), Eol]"

section \<open>\<^verbatim>\<open>PlantLeaves._generate_examples\<close>\<close>

record 'p example =
  image_path :: 'p
  image_filename :: string
  label :: string

definition label_map :: "(string, string) dict" where
  \<comment> \<open>\<^verbatim>\<open>{pattern: label for pattern, label in _LABEL_MAPPING}\<close>\<close>
  "label_map = fold (\<lambda>(pattern, lbl) d. AList.update pattern lbl d) LABEL_MAPPING []"

definition format_key :: "string \<Rightarrow> string \<Rightarrow> string" where
  \<comment> \<open>\<^verbatim>\<open>"{}/{}".format(label, original_fname)\<close>\<close>
  "format_key lbl original_fname = lbl @ ''/'' @ original_fname"

text \<open>
  The generator is run to its end: the result is the sequence of the pairs it yields, in
  the order it yields them, and the exception that ended it, if one did. The loop visits
  \<^verbatim>\<open>image_files.items()\<close> in the order of the dict. The local variable \<^verbatim>\<open>label\<close> of the
  source is \<open>lbl\<close> here, \<open>label\<close> being the field of the record.
\<close>

fun generate_examples ::
  "(string, 'p) dict \<Rightarrow> (string \<times> 'p example) list \<times> error option" where
  "generate_examples [] = ([], None)"
| "generate_examples ((original_fname, fpath) # rest) =
     (case re_match regexp original_fname of
        None \<Rightarrow> generate_examples rest
      | Some group1 \<Rightarrow>
          if contains label_map group1 then
            (case getitem label_map group1 of
               Inl e \<Rightarrow> ([], Some e)
             | Inr lbl \<Rightarrow>
                 (let record = \<lparr>image_path = fpath, image_filename = original_fname,
                                 label = lbl\<rparr>;
                      (yielded, exc) = generate_examples rest
                  in ((format_key lbl original_fname, record) # yielded, exc)))
          else generate_examples rest)"

definition yields :: "(string, 'p) dict \<Rightarrow> (string \<times> 'p example) list" where
  "yields image_files = fst (generate_examples image_files)"

definition raised :: "(string, 'p) dict \<Rightarrow> error option" where
  "raised image_files = snd (generate_examples image_files)"

text \<open>
  What one pass of the loop body yields for one entry of \<^verbatim>\<open>image_files\<close>: a pair of key
  and record, or nothing. It restates the body of the loop, and
  \<open>generate_examples\<close> is shown below to be this function run over the entries in order.
\<close>

definition emitted :: "string \<times> 'p \<Rightarrow> (string \<times> 'p example) option" where
  "emitted item =
     (case item of (original_fname, fpath) \<Rightarrow>
        (case re_match regexp original_fname of
           None \<Rightarrow> None
         | Some group1 \<Rightarrow>
             (case map_of label_map group1 of
                None \<Rightarrow> None
              | Some lbl \<Rightarrow>
                  Some (format_key lbl original_fname,
                        \<lparr>image_path = fpath, image_filename = original_fname, label = lbl\<rparr>))))"

section \<open>The retry loop\<close>

lemma retry_loop_success:
  "download calls m = Inr files \<Longrightarrow>
   retry_loop download m calls c = Some (Inr files, Suc calls)"
  by (subst retry_loop.simps) simp

lemma retry_loop_fail_step:
  "download calls m = Inl e \<Longrightarrow> c \<noteq> MAX_DOWNLOAD_RETRY \<Longrightarrow>
   retry_loop download m calls c = retry_loop download m (Suc calls) c"
  by (subst retry_loop.simps) simp

text \<open>After \<open>k\<close> failing calls and one that returns, the loop has made \<open>k + 1\<close> calls.\<close>

lemma retry_loop_failures_then_success:
  "(\<forall>i<k. \<exists>e. download (calls + i) m = Inl e) \<Longrightarrow> download (calls + k) m = Inr files \<Longrightarrow>
   retry_loop download m calls 0 = Some (Inr files, Suc (calls + k))"
proof (induction k arbitrary: calls)
  case 0
  then show ?case by (simp add: retry_loop_success)
next
  case (Suc k)
  from Suc.prems(1) obtain e where e: "download calls m = Inl e" by force
  have "\<forall>i<k. \<exists>e. download (Suc calls + i) m = Inl e"
    using Suc.prems(1) by (metis Suc_less_eq add_Suc_right add_Suc)
  moreover have "download (Suc calls + k) m = Inr files"
    using Suc.prems(2) by simp
  ultimately have "retry_loop download m (Suc calls) 0 = Some (Inr files, Suc (Suc calls + k))"
    by (rule Suc.IH)
  then show ?case
    using retry_loop_fail_step [of download calls m e 0] e by (simp add: MAX_DOWNLOAD_RETRY_def)
qed

text \<open>
  The counter keeps its value, so a loop entered with a counter other than the maximum
  cannot return while every call fails: by induction on the definition of the loop.
\<close>

lemma retry_loop_no_result:
  assumes "retry_loop download m calls c = Some r"
  shows "c \<noteq> MAX_DOWNLOAD_RETRY \<longrightarrow> (\<forall>k\<ge>calls. \<exists>e. download k m = Inl e) \<longrightarrow> False"
proof (rule retry_loop.raw_induct
    [where P = "\<lambda>download m calls c r.
       c \<noteq> MAX_DOWNLOAD_RETRY \<longrightarrow> (\<forall>k\<ge>calls. \<exists>e. download k m = Inl e) \<longrightarrow> False",
     OF _ assms])
  fix loop :: "(nat \<Rightarrow> (string, string) dict \<Rightarrow> 'a + (string, 'b) dict) \<Rightarrow> (string, string) dict
     \<Rightarrow> nat \<Rightarrow> int \<Rightarrow> (('a + (string, 'b) dict) \<times> nat) option"
  fix download m calls c r
  assume IH: "\<And>download m calls c r. loop download m calls c = Some r \<Longrightarrow>
      c \<noteq> MAX_DOWNLOAD_RETRY \<longrightarrow> (\<forall>k\<ge>calls. \<exists>e. download k m = Inl e) \<longrightarrow> False"
  assume body: "(case download calls m of
        Inr image_files \<Rightarrow> Some (Inr image_files, Suc calls)
      | Inl e \<Rightarrow>
          (let dropped = uplus (uplus c) in
           if c = MAX_DOWNLOAD_RETRY then Some (Inl e, Suc calls)
           else loop download m (Suc calls) c)) = Some r"
  show "c \<noteq> MAX_DOWNLOAD_RETRY \<longrightarrow> (\<forall>k\<ge>calls. \<exists>e. download k m = Inl e) \<longrightarrow> False"
  proof (intro impI)
    assume c: "c \<noteq> MAX_DOWNLOAD_RETRY" and fails: "\<forall>k\<ge>calls. \<exists>e. download k m = Inl e"
    from fails obtain e where e: "download calls m = Inl e" by blast
    from body e c have "loop download m (Suc calls) c = Some r" by simp
    moreover have "\<forall>k\<ge>Suc calls. \<exists>e. download k m = Inl e" using fails by simp
    ultimately show False using IH c by blast
  qed
qed

lemma retry_loop_always_failing:
  assumes "\<forall>k. \<exists>e. download k m = Inl e"
  shows "retry_loop download m 0 0 = None"
proof (cases "retry_loop download m 0 0")
  case None
  then show ?thesis .
next
  case (Some r)
  with retry_loop_no_result [OF Some] assms show ?thesis
    by (simp add: MAX_DOWNLOAD_RETRY_def)
qed

text \<open>
  C1. A download that raises on its first 10 calls: the claim has the tenth failure
  re-raised and no call 11. The loop never changes \<^verbatim>\<open>retry_count\<close>, so it makes call 11:
  when that call returns, its files go into the split generator and no failure reaches
  the caller; when every call raises, the loop never returns.
\<close>

theorem split_generators_ten_failures_call_again:
  "split_generators lines (\<lambda>k m. if k < 10 then Inl e else Inr files)
     = Some (Inr [\<lparr>name = TRAIN, num_shards = 1, gen_kwargs = files\<rparr>], 11)
   \<and> split_generators lines (\<lambda>k m. (Inl e :: 'e + (string, 'p) dict)) = None"
proof
  have "retry_loop (\<lambda>k m. if k < 10 then Inl e else Inr files) (name_to_url_map lines) 0 0
          = Some (Inr files, Suc (0 + 10))"
    by (rule retry_loop_failures_then_success) simp_all
  then show "split_generators lines (\<lambda>k m. if k < 10 then Inl e else Inr files)
     = Some (Inr [\<lparr>name = TRAIN, num_shards = 1, gen_kwargs = files\<rparr>], 11)"
    by (simp add: split_generators_def)
next
  have "retry_loop (\<lambda>k m. (Inl e :: 'e + (string, 'p) dict)) (name_to_url_map lines) 0 0 = None"
    by (rule retry_loop_always_failing) simp
  then show "split_generators lines (\<lambda>k m. (Inl e :: 'e + (string, 'p) dict)) = None"
    by (simp add: split_generators_def)
qed

text \<open>
  C2. When the download raises on its first 9 calls and returns on call 10, the loop stops
  after 10 calls and the files of call 10 are the \<^verbatim>\<open>image_files\<close> of the one split
  generator returned; no failure reaches the caller.
\<close>

theorem split_generators_nine_failures_then_success:
  assumes "\<forall>k<9. \<exists>e. download k (name_to_url_map lines) = Inl e"
    and "download 9 (name_to_url_map lines) = Inr image_files"
  shows "split_generators lines download
     = Some (Inr [\<lparr>name = TRAIN, num_shards = 1, gen_kwargs = image_files\<rparr>], 10)"
proof -
  have "retry_loop download (name_to_url_map lines) 0 0 = Some (Inr image_files, Suc (0 + 9))"
    by (rule retry_loop_failures_then_success) (use assms in simp_all)
  then show ?thesis by (simp add: split_generators_def)
qed

theorem split_generators_nine_failures_then_success_witness:
  "split_generators [''http://host/0001_leaf.JPG'']
      (\<lambda>k m. if k < 9 then Inl ''504'' else Inr [(''0001_leaf.JPG'', ''cache/1'')])
     = Some (Inr [\<lparr>name = TRAIN, num_shards = 1,
                   gen_kwargs = [(''0001_leaf.JPG'', ''cache/1'')]\<rparr>], 10)"
  using split_generators_nine_failures_then_success
    [of "\<lambda>k m. if k < 9 then Inl ''504'' else Inr [(''0001_leaf.JPG'', ''cache/1'')]"
        "[''http://host/0001_leaf.JPG'']" "[(''0001_leaf.JPG'', ''cache/1'')]"]
  by simp

section \<open>What the regular expression matches\<close>

text \<open>
  The matcher is unfolded item by item. The only item that backtracks is \<^verbatim>\<open>.*\<close>: it
  matches when the rest of the string splits into a part free of newlines and a part
  that the items after it match.
\<close>

lemma re_run_Lit:
  "re_run (Lit a # r) pos grp cap s =
     (case s of [] \<Rightarrow> None
      | c # s' \<Rightarrow> if c = a then re_run r (Suc pos) grp (if grp then cap @ [c] else cap) s' else None)"
  by (cases s) simp_all

lemma re_run_Digit:
  "re_run (Digit # r) pos grp cap s =
     (case s of [] \<Rightarrow> None
      | c # s' \<Rightarrow> if isdigit c then re_run r (Suc pos) grp (if grp then cap @ [c] else cap) s' else None)"
  by (cases s) simp_all

lemma re_run_suffix:
  "re_run [Lit (CHR ''.''), Lit (CHR ''J''), Lit (CHR ''P''), Lit (CHR ''G''), Eol] pos False cap s
     = (if s = ''.JPG'' \<or> s = ''.JPG'' @ [newline] then Some cap else None)"
  by (auto simp add: re_run_Lit split: list.splits)

lemma re_run_DotStar:
  assumes r: "\<And>pos s. re_run r pos False cap s = (if P s then Some cap else None)"
  shows "re_run (DotStar # r) pos False cap s =
     (if \<exists>mid rest. s = mid @ rest \<and> newline \<notin> set mid \<and> P rest then Some cap else None)"
proof (induction s arbitrary: pos)
  case Nil
  then show ?case by (simp add: r)
next
  case (Cons c s)
  let ?Q = "\<lambda>s. \<exists>mid rest. s = mid @ rest \<and> newline \<notin> set mid \<and> P rest"
  have Q: "?Q (c # s) \<longleftrightarrow> P (c # s) \<or> (c \<noteq> newline \<and> ?Q s)"
  proof
    assume "?Q (c # s)"
    then obtain mid rest where m: "c # s = mid @ rest" "newline \<notin> set mid" "P rest" by blast
    show "P (c # s) \<or> (c \<noteq> newline \<and> ?Q s)"
    proof (cases mid)
      case Nil
      with m show ?thesis by simp
    next
      case (Cons a mid')
      with m have "c \<noteq> newline" "s = mid' @ rest" "newline \<notin> set mid'" by auto
      with m(3) show ?thesis by blast
    qed
  next
    assume "P (c # s) \<or> (c \<noteq> newline \<and> ?Q s)"
    then show "?Q (c # s)"
    proof
      assume "P (c # s)"
      then have "c # s = [] @ (c # s) \<and> newline \<notin> set [] \<and> P (c # s)" by simp
      then show ?thesis by blast
    next
      assume "c \<noteq> newline \<and> ?Q s"
      then obtain mid rest where "c \<noteq> newline" "s = mid @ rest" "newline \<notin> set mid" "P rest"
        by blast
      then have "c # s = (c # mid) @ rest \<and> newline \<notin> set (c # mid) \<and> P rest" by simp
      then show ?thesis by blast
    qed
  qed
  show ?case
  proof (cases "c = newline")
    case True
    then show ?thesis unfolding Q by (simp add: r)
  next
    case False
    then show ?thesis unfolding Q by (simp add: r Cons.IH)
  qed
qed

lemma re_run_prefix:
  "re_run (Bol # GroupOpen # Digit # Digit # Digit # Digit # GroupClose # Lit (CHR ''_'') # r)
      0 False [] f =
     (case f of
        d1 # d2 # d3 # d4 # u # s \<Rightarrow>
          if isdigit d1 \<and> isdigit d2 \<and> isdigit d3 \<and> isdigit d4 \<and> u = CHR ''_''
          then re_run r 5 False [d1, d2, d3, d4] s else None
      | _ \<Rightarrow> None)"
  by (simp add: re_run_Digit re_run_Lit eval_nat_numeral split: list.split)

lemma re_match_regexp:
  "re_match regexp f =
     (case f of
        d1 # d2 # d3 # d4 # u # s \<Rightarrow>
          if isdigit d1 \<and> isdigit d2 \<and> isdigit d3 \<and> isdigit d4 \<and> u = CHR ''_'' \<and>
             (\<exists>mid rest. s = mid @ rest \<and> newline \<notin> set mid \<and>
                (rest = ''.JPG'' \<or> rest = ''.JPG'' @ [newline]))
          then Some [d1, d2, d3, d4] else None
      | _ \<Rightarrow> None)"
  unfolding re_match_def regexp_def re_run_prefix
  by (simp only: re_run_DotStar [where P = "\<lambda>rest. rest = ''.JPG'' \<or> rest = ''.JPG'' @ [newline]",
        OF re_run_suffix] if_distrib cong: if_cong list.case_cong)
     (auto split: list.split)

lemma re_match_regexp_iff:
  "re_match regexp f = Some g \<longleftrightarrow>
     length g = 4 \<and> (\<forall>c\<in>set g. isdigit c) \<and>
     (\<exists>mid. newline \<notin> set mid \<and>
        (f = g @ ''_'' @ mid @ ''.JPG'' \<or> f = g @ ''_'' @ mid @ ''.JPG'' @ [newline]))"
  (is "?L \<longleftrightarrow> ?R")
proof
  assume ?L
  then show ?R
    by (auto simp: re_match_regexp split: list.splits if_splits)
next
  assume ?R
  then obtain mid rest where g: "length g = 4" "\<forall>c\<in>set g. isdigit c"
    and mid: "newline \<notin> set mid"
    and rest: "rest = ''.JPG'' \<or> rest = ''.JPG'' @ [newline]"
    and f: "f = g @ ''_'' @ mid @ rest"
    by auto
  from g(1) obtain d1 d2 d3 d4 where gd: "g = [d1, d2, d3, d4]"
    by (auto simp: length_Suc_conv numeral_eq_Suc)
  have "\<exists>mida resta. mid @ rest = mida @ resta \<and> newline \<notin> set mida \<and>
      (resta = ''.JPG'' \<or> resta = ''.JPG'' @ [newline])"
    using mid rest by blast
  with f gd g(2) show ?L
    by (simp add: re_match_regexp)
qed

section \<open>The label table\<close>

lemma label_map_eq: "label_map = LABEL_MAPPING"
  by (simp add: label_map_def LABEL_MAPPING_def)

lemma distinct_codes: "distinct (map fst LABEL_MAPPING)"
  by (simp add: LABEL_MAPPING_def)

lemma distinct_labels: "distinct (map snd LABEL_MAPPING)"
  by (simp add: LABEL_MAPPING_def)

lemma length_LABEL_MAPPING: "length LABEL_MAPPING = 22"
  by (simp add: LABEL_MAPPING_def)

lemma codes_numeric:
  "code \<in> set (map fst LABEL_MAPPING) \<Longrightarrow> length code = 4 \<and> (\<forall>c\<in>set code. isdigit c)"
  by (auto simp add: LABEL_MAPPING_def isdigit_def)

lemma labels_no_slash: "lbl \<in> set (map snd LABEL_MAPPING) \<Longrightarrow> CHR ''/'' \<notin> set lbl"
  by (auto simp add: LABEL_MAPPING_def)

lemma map_of_label_map:
  "map_of label_map code = Some lbl \<longleftrightarrow> (code, lbl) \<in> set LABEL_MAPPING"
  unfolding label_map_eq using distinct_codes by (rule map_of_eq_Some_iff)

section \<open>The generator as a filter over the entries\<close>

lemma generate_examples_eq:
  "generate_examples image_files = (List.map_filter emitted image_files, None)"
proof (induction image_files)
  case Nil
  then show ?case by (simp add: List.map_filter_simps)
next
  case (Cons item rest)
  obtain original_fname fpath where item: "item = (original_fname, fpath)" by (cases item)
  show ?case
    unfolding item
    by (simp add: Cons.IH List.map_filter_simps emitted_def contains_def getitem_def
        split: option.split)
qed

lemma yields_eq: "yields image_files = List.map_filter emitted image_files"
  by (simp add: yields_def generate_examples_eq)

lemma raised_eq: "raised image_files = None"
  by (simp add: raised_def generate_examples_eq)

lemma yields_append: "yields (xs @ ys) = yields xs @ yields ys"
  by (simp add: yields_eq List.map_filter_def)

lemma yields_Cons: "yields (x # xs) = (case emitted x of None \<Rightarrow> yields xs | Some y \<Rightarrow> y # yields xs)"
  by (simp add: yields_eq List.map_filter_simps split: option.split)

lemma emitted_match:
  assumes "(code, lbl) \<in> set LABEL_MAPPING" and "newline \<notin> set mid"
    and "f = code @ ''_'' @ mid @ ''.JPG'' \<or> f = code @ ''_'' @ mid @ ''.JPG'' @ [newline]"
  shows "emitted (f, fpath) =
     Some (format_key lbl f, \<lparr>image_path = fpath, image_filename = f, label = lbl\<rparr>)"
proof -
  from assms(1) have "code \<in> set (map fst LABEL_MAPPING)" by force
  then have "length code = 4 \<and> (\<forall>c\<in>set code. isdigit c)" by (rule codes_numeric)
  with assms(2,3) have "re_match regexp f = Some code"
    unfolding re_match_regexp_iff by blast
  moreover from assms(1) have "map_of label_map code = Some lbl"
    by (simp add: map_of_label_map)
  ultimately show ?thesis by (simp add: emitted_def)
qed

lemma emitted_Some:
  "emitted (f, fpath) = Some (k, r) \<Longrightarrow>
     \<exists>code. re_match regexp f = Some code \<and> (code, label r) \<in> set LABEL_MAPPING \<and>
       k = format_key (label r) f \<and> image_filename r = f \<and> image_path r = fpath"
  by (auto simp: emitted_def map_of_label_map split: option.splits)

lemma emitted_None_iff:
  "emitted (f, fpath) = None \<longleftrightarrow>
     re_match regexp f = None \<or>
     (\<exists>code. re_match regexp f = Some code \<and> code \<notin> fst ` set LABEL_MAPPING)"
proof (cases "re_match regexp f")
  case None
  then show ?thesis by (simp add: emitted_def)
next
  case (Some code)
  show ?thesis
  proof (cases "map_of label_map code")
    case None
    then have "code \<notin> fst ` set LABEL_MAPPING"
      by (simp add: label_map_eq map_of_eq_None_iff)
    with Some None show ?thesis by (simp add: emitted_def)
  next
    case (Some lbl)
    then have "(code, lbl) \<in> set LABEL_MAPPING" by (simp add: map_of_label_map)
    then have "code \<in> fst ` set LABEL_MAPPING" by force
    with Some \<open>re_match regexp f = Some code\<close> show ?thesis by (simp add: emitted_def)
  qed
qed

lemma yields_Nil: "yields [] = []"
  by (simp add: yields_def)

lemma set_yields:
  "y \<in> set (yields image_files) \<longleftrightarrow> (\<exists>x\<in>set image_files. emitted x = Some y)"
  by (induction image_files) (auto simp: yields_Nil yields_Cons split: option.splits)

section \<open>Claims on the records of \<^verbatim>\<open>_generate_examples\<close>\<close>

text \<open>
  C3, as amended. A filename made of a code of the label table, an underscore, characters
  none of which is a newline, and the suffix \<^verbatim>\<open>.JPG\<close>: for every entry of that name,
  \<^verbatim>\<open>_generate_examples\<close> yields the record of that entry with the label the table gives
  to the code, under the key \<^verbatim>\<open>label/filename\<close>; every record it yields for that
  filename has that label, and it ends without an exception. (The codes of the table are
  four digits each, see \<open>codes_numeric\<close>.)
\<close>

theorem generate_examples_label_of_code:
  assumes "(code, lbl) \<in> set LABEL_MAPPING" and "newline \<notin> set mid"
    and "f = code @ ''_'' @ mid @ ''.JPG''"
    and "(f, fpath) \<in> set image_files"
  shows "(format_key lbl f, \<lparr>image_path = fpath, image_filename = f, label = lbl\<rparr>)
           \<in> set (yields image_files)
         \<and> (\<forall>kr \<in> set (yields image_files). image_filename (snd kr) = f \<longrightarrow> label (snd kr) = lbl)
         \<and> raised image_files = None"
proof (intro conjI)
  have e: "emitted (f, p) =
     Some (format_key lbl f, \<lparr>image_path = p, image_filename = f, label = lbl\<rparr>)" for p :: 'a
    using assms(1,2) by (rule emitted_match) (simp add: assms(3))
  show "(format_key lbl f, \<lparr>image_path = fpath, image_filename = f, label = lbl\<rparr>)
           \<in> set (yields image_files)"
    unfolding set_yields using e [of fpath] assms(4) by (rule rev_bexI [rotated])
  show "\<forall>kr \<in> set (yields image_files). image_filename (snd kr) = f \<longrightarrow> label (snd kr) = lbl"
  proof (intro ballI impI)
    fix kr assume kr: "kr \<in> set (yields image_files)" and fn: "image_filename (snd kr) = f"
    from kr obtain x where x: "x \<in> set image_files" "emitted x = Some kr"
      unfolding set_yields by blast
    obtain f' p where "x = (f', p)" by (cases x)
    with x have em: "emitted (f', p) = Some (fst kr, snd kr)" by simp
    from emitted_Some [OF em] have "image_filename (snd kr) = f'" by blast
    with fn em have "emitted (f, p) = Some kr" by simp
    with e [of p] have "kr = (format_key lbl f, \<lparr>image_path = p, image_filename = f, label = lbl\<rparr>)"
      by simp
    then show "label (snd kr) = lbl" by simp
  qed
  show "raised image_files = None" by (rule raised_eq)
qed

theorem generate_examples_label_of_code_witness:
  "(''0001'', ''Mango (P0) healthy'') \<in> set LABEL_MAPPING \<and> newline \<notin> set ''leaf''
   \<and> (''Mango (P0) healthy/0001_leaf.JPG'',
        \<lparr>image_path = ''cache/1'', image_filename = ''0001_leaf.JPG'',
         label = ''Mango (P0) healthy''\<rparr>)
       \<in> set (yields [(''0001_leaf.JPG'', ''cache/1''), (''0099_leaf.JPG'', ''cache/2'')])
   \<and> raised [(''0001_leaf.JPG'', ''cache/1''), (''0099_leaf.JPG'', ''cache/2'')] = None"
proof -
  have h1: "(''0001'', ''Mango (P0) healthy'') \<in> set LABEL_MAPPING"
    by (simp add: LABEL_MAPPING_def)
  have h2: "newline \<notin> set ''leaf''" by (simp add: newline_def)
  have h3: "''0001_leaf.JPG'' = ''0001'' @ ''_'' @ ''leaf'' @ ''.JPG''" by simp
  have h4: "(''0001_leaf.JPG'', ''cache/1'')
      \<in> set [(''0001_leaf.JPG'', ''cache/1''), (''0099_leaf.JPG'', ''cache/2'')]" by simp
  from generate_examples_label_of_code [OF h1 h2 h3 h4] h1 h2 show ?thesis
    by (simp add: format_key_def)
qed

text \<open>
  C3 as the claim states it, with arbitrary characters between the underscore and the
  suffix, fails when one of them is a newline: the dot of the pattern does not match it.
  Here the name is \<^verbatim>\<open>0001_\n.JPG\<close> and nothing is yielded.
\<close>

theorem generate_examples_inner_newline_counterexample:
  "(''0001'', ''Mango (P0) healthy'') \<in> set LABEL_MAPPING
   \<and> generate_examples [(''0001'' @ ''_'' @ [newline] @ ''.JPG'', ''cache/1'')] = ([], None)"
  by (simp add: LABEL_MAPPING_def re_match_def regexp_def isdigit_def newline_def)

text \<open>
  C4. A filename that the pattern (the compiled \<open>regexp\<close>) does not match, or whose
  captured code is not a code of the label table: no record that \<^verbatim>\<open>_generate_examples\<close>
  yields, on any input, carries that filename; an entry of that name is passed over, the
  entries before and after it yielding what they yield without it; and the generator ends
  without an exception.
\<close>

theorem generate_examples_skips_unrecognized:
  assumes "re_match regexp f = None
     \<or> (\<exists>code. re_match regexp f = Some code \<and> code \<notin> fst ` set LABEL_MAPPING)"
  shows "(\<forall>kr \<in> set (yields image_files). image_filename (snd kr) \<noteq> f)
         \<and> yields (before @ (f, fpath) # after) = yields before @ yields after
         \<and> raised (before @ (f, fpath) # after) = None"
proof (intro conjI)
  have none: "emitted (f, fpath) = None"
    using assms by (simp add: emitted_None_iff)
  show "\<forall>kr \<in> set (yields image_files). image_filename (snd kr) \<noteq> f"
  proof (intro ballI notI)
    fix kr assume kr: "kr \<in> set (yields image_files)" and fn: "image_filename (snd kr) = f"
    from kr obtain x where x: "emitted x = Some kr" unfolding set_yields by blast
    obtain f' p where "x = (f', p)" by (cases x)
    with x have em: "emitted (f', p) = Some (fst kr, snd kr)" by simp
    from emitted_Some [OF em] have "image_filename (snd kr) = f'" by blast
    moreover have "emitted (f, p) = None"
      using assms by (simp add: emitted_None_iff)
    ultimately show False using fn em by simp
  qed
  show "yields (before @ (f, fpath) # after) = yields before @ yields after"
    by (simp add: yields_append yields_Cons none)
  show "raised (before @ (f, fpath) # after) = None" by (rule raised_eq)
qed

theorem generate_examples_skips_unrecognized_witness:
  "re_match regexp ''0099_leaf.JPG'' = Some ''0099'' \<and> ''0099'' \<notin> fst ` set LABEL_MAPPING
   \<and> yields [(''0001_leaf.JPG'', ''cache/1''), (''0099_leaf.JPG'', ''cache/2''),
             (''0002_leaf.JPG'', ''cache/3'')]
       = yields [(''0001_leaf.JPG'', ''cache/1'')] @ yields [(''0002_leaf.JPG'', ''cache/3'')]
   \<and> raised [(''0001_leaf.JPG'', ''cache/1''), (''0099_leaf.JPG'', ''cache/2''),
              (''0002_leaf.JPG'', ''cache/3'')] = None"
proof -
  have m: "re_match regexp ''0099_leaf.JPG'' = Some ''0099''"
    by (simp add: re_match_def regexp_def isdigit_def newline_def)
  have a: "''0099'' \<notin> fst ` set LABEL_MAPPING" by (simp add: LABEL_MAPPING_def)
  have h: "re_match regexp ''0099_leaf.JPG'' = None
     \<or> (\<exists>code. re_match regexp ''0099_leaf.JPG'' = Some code \<and> code \<notin> fst ` set LABEL_MAPPING)"
    using m a by simp
  from generate_examples_skips_unrecognized
    [OF h, of "[]" "[(''0001_leaf.JPG'', ''cache/1'')]" "''cache/2''"
       "[(''0002_leaf.JPG'', ''cache/3'')]"] m a
  show ?thesis by (elim conjE, intro conjI, simp_all only: append.simps)
qed

text \<open>
  No label of the table holds a slash, so a key \<^verbatim>\<open>label/filename\<close> splits at its first
  slash into the label and the filename: two entries with one key have one filename.
\<close>

lemma format_key_inj:
  assumes "CHR ''/'' \<notin> set l1" and "CHR ''/'' \<notin> set l2"
    and "format_key l1 f1 = format_key l2 f2"
  shows "l1 = l2 \<and> f1 = f2"
proof -
  have t: "takeWhile (\<lambda>c. c \<noteq> CHR ''/'') (format_key l f) = l" if "CHR ''/'' \<notin> set l" for l f
    using that unfolding format_key_def by (induction l) auto
  from assms(3) have "takeWhile (\<lambda>c. c \<noteq> CHR ''/'') (format_key l1 f1)
      = takeWhile (\<lambda>c. c \<noteq> CHR ''/'') (format_key l2 f2)" by simp
  with assms(1,2) have "l1 = l2" by (simp add: t)
  with assms(3) show ?thesis by (simp add: format_key_def)
qed

lemma emitted_key_inj:
  assumes "emitted (f1, p1) = Some kr1" and "emitted (f2, p2) = Some kr2" and "fst kr1 = fst kr2"
  shows "f1 = f2"
proof -
  from assms(1) have e1: "emitted (f1, p1) = Some (fst kr1, snd kr1)" by simp
  from assms(2) have e2: "emitted (f2, p2) = Some (fst kr2, snd kr2)" by simp
  from emitted_Some [OF e1] obtain c1 where
    c1: "(c1, label (snd kr1)) \<in> set LABEL_MAPPING" "fst kr1 = format_key (label (snd kr1)) f1"
    by blast
  from emitted_Some [OF e2] obtain c2 where
    c2: "(c2, label (snd kr2)) \<in> set LABEL_MAPPING" "fst kr2 = format_key (label (snd kr2)) f2"
    by blast
  from c1(1) have "label (snd kr1) \<in> set (map snd LABEL_MAPPING)" by force
  then have s1: "CHR ''/'' \<notin> set (label (snd kr1))" by (rule labels_no_slash)
  from c2(1) have "label (snd kr2) \<in> set (map snd LABEL_MAPPING)" by force
  then have s2: "CHR ''/'' \<notin> set (label (snd kr2))" by (rule labels_no_slash)
  from c1(2) c2(2) assms(3)
  have "format_key (label (snd kr1)) f1 = format_key (label (snd kr2)) f2" by simp
  with format_key_inj [OF s1 s2] show ?thesis by blast
qed

lemma yields_all_emitted:
  "\<forall>x\<in>set image_files. emitted x \<noteq> None \<Longrightarrow>
   yields image_files = map (\<lambda>x. the (emitted x)) image_files"
  by (induction image_files) (auto simp: yields_Nil yields_Cons)

text \<open>
  C5. An \<^verbatim>\<open>image_files\<close> whose \<open>N\<close> basenames are distinct, each matching the pattern with a
  code of the label table: \<^verbatim>\<open>_generate_examples\<close> yields exactly \<open>N\<close> records, their keys
  are pairwise distinct and each is \<^verbatim>\<open>label/filename\<close> of its record, and no exception
  ends it. That the codes differ from one basename to the other is not needed. In
  particular, \<^verbatim>\<open>0099\<close> is not a code of the table, and on the two entries
  \<^verbatim>\<open>0001_leaf.JPG\<close> and \<^verbatim>\<open>0099_leaf.JPG\<close> the one record yielded has the key
  \<^verbatim>\<open>Mango (P0) healthy/0001_leaf.JPG\<close>.
\<close>

theorem generate_examples_one_record_per_entry:
  assumes "distinct (map fst image_files)"
    and "\<forall>f \<in> fst ` set image_files.
           \<exists>code. re_match regexp f = Some code \<and> code \<in> fst ` set LABEL_MAPPING"
  shows "length (yields image_files) = length image_files
       \<and> distinct (map fst (yields image_files))
       \<and> (\<forall>kr \<in> set (yields image_files).
             fst kr = label (snd kr) @ ''/'' @ image_filename (snd kr))
       \<and> raised image_files = None
       \<and> ''0099'' \<notin> fst ` set LABEL_MAPPING
       \<and> yields [(''0001_leaf.JPG'', p1), (''0099_leaf.JPG'', p2)]
           = [(''Mango (P0) healthy/0001_leaf.JPG'',
               \<lparr>image_path = p1, image_filename = ''0001_leaf.JPG'',
                label = ''Mango (P0) healthy''\<rparr>)]"
proof (intro conjI)
  have some: "emitted x \<noteq> None" if "x \<in> set image_files" for x
  proof -
    obtain f p where x: "x = (f, p)" by (cases x)
    with that have "f \<in> fst ` set image_files" by force
    with assms(2) obtain code where "re_match regexp f = Some code"
      "code \<in> fst ` set LABEL_MAPPING" by blast
    then show ?thesis unfolding x emitted_None_iff by simp
  qed
  then have ys: "yields image_files = map (\<lambda>x. the (emitted x)) image_files"
    by (simp add: yields_all_emitted)
  then show "length (yields image_files) = length image_files" by simp
  have inj: "inj_on (\<lambda>x. fst (the (emitted x))) (set image_files)"
  proof (rule inj_onI)
    fix x y assume x: "x \<in> set image_files" and y: "y \<in> set image_files"
      and eq: "fst (the (emitted x)) = fst (the (emitted y))"
    from some [OF x] obtain krx where krx: "emitted x = Some krx" by blast
    from some [OF y] obtain kry where kry: "emitted y = Some kry" by blast
    from krx kry eq have "fst krx = fst kry" by simp
    with krx kry have "fst x = fst y"
      using emitted_key_inj [of "fst x" "snd x" krx "fst y" "snd y" kry] by simp
    with assms(1) x y show "x = y" by (meson distinct_map inj_onD)
  qed
  from assms(1) have "distinct image_files" by (simp add: distinct_map)
  with inj have "distinct (map (\<lambda>x. fst (the (emitted x))) image_files)"
    by (simp add: distinct_map)
  then show "distinct (map fst (yields image_files))" by (simp add: ys comp_def)
  show "\<forall>kr \<in> set (yields image_files).
             fst kr = label (snd kr) @ ''/'' @ image_filename (snd kr)"
  proof
    fix kr assume "kr \<in> set (yields image_files)"
    then obtain x where "emitted x = Some kr" unfolding set_yields by blast
    then have "emitted (fst x, snd x) = Some (fst kr, snd kr)" by simp
    from emitted_Some [OF this] show "fst kr = label (snd kr) @ ''/'' @ image_filename (snd kr)"
      by (auto simp: format_key_def)
  qed
  show "raised image_files = None" by (rule raised_eq)
  show "''0099'' \<notin> fst ` set LABEL_MAPPING" by (simp add: LABEL_MAPPING_def)
  show "yields [(''0001_leaf.JPG'', p1), (''0099_leaf.JPG'', p2)]
           = [(''Mango (P0) healthy/0001_leaf.JPG'',
               \<lparr>image_path = p1, image_filename = ''0001_leaf.JPG'',
                label = ''Mango (P0) healthy''\<rparr>)]"
    by (simp add: yields_def re_match_def regexp_def isdigit_def newline_def
        contains_def getitem_def label_map_eq LABEL_MAPPING_def format_key_def)
qed

theorem generate_examples_one_record_per_entry_witness:
  "distinct (map fst [(''0001_a.JPG'', ''cache/1''), (''0002_b.JPG'', ''cache/2''),
                      (''0022_a.JPG'', ''cache/3'')])
   \<and> length (yields [(''0001_a.JPG'', ''cache/1''), (''0002_b.JPG'', ''cache/2''),
                      (''0022_a.JPG'', ''cache/3'')]) = 3
   \<and> distinct (map fst (yields [(''0001_a.JPG'', ''cache/1''), (''0002_b.JPG'', ''cache/2''),
                                 (''0022_a.JPG'', ''cache/3'')]))"
proof -
  let ?files = "[(''0001_a.JPG'', ''cache/1''), (''0002_b.JPG'', ''cache/2''),
                 (''0022_a.JPG'', ''cache/3'')]"
  have h1: "distinct (map fst ?files)" by simp
  have m: "re_match regexp ''0001_a.JPG'' = Some ''0001''"
    "re_match regexp ''0002_b.JPG'' = Some ''0002''"
    "re_match regexp ''0022_a.JPG'' = Some ''0022''"
    by (simp_all add: re_match_def regexp_def isdigit_def newline_def)
  have t: "''0001'' \<in> fst ` set LABEL_MAPPING" "''0002'' \<in> fst ` set LABEL_MAPPING"
    "''0022'' \<in> fst ` set LABEL_MAPPING"
    by (simp_all add: LABEL_MAPPING_def)
  have h2: "\<forall>f \<in> fst ` set ?files.
           \<exists>code. re_match regexp f = Some code \<and> code \<in> fst ` set LABEL_MAPPING"
    using m t by simp
  note t = generate_examples_one_record_per_entry
    [OF h1 h2, where ?p1.0 = "''cache/1''" and ?p2.0 = "''cache/2''"]
  from t have "length (yields ?files) = length ?files" by (rule conjunct1)
  then have l: "length (yields ?files) = 3" by simp
  from t have d: "distinct (map fst (yields ?files))" by (rule conjunct2 [THEN conjunct1])
  from h1 l d show ?thesis by (intro conjI)
qed

lemma re_match_regexp_last:
  assumes "re_match regexp f = Some code"
  shows "f \<noteq> [] \<and> (last f = CHR ''G'' \<or> last f = newline)"
proof -
  from assms obtain mid where
    "f = code @ ''_'' @ mid @ ''.JPG'' \<or> f = code @ ''_'' @ mid @ ''.JPG'' @ [newline]"
    unfolding re_match_regexp_iff by blast
  then show ?thesis by auto
qed

text \<open>
  C6. A filename with a lowercase extension, that is a dot followed by one or more of the
  letters \<^verbatim>\<open>a\<close> to \<^verbatim>\<open>z\<close> at its end: the pattern does not match it, no record that
  \<^verbatim>\<open>_generate_examples\<close> yields carries that filename, and an entry of that name is passed
  over. In particular nothing is yielded for \<^verbatim>\<open>0001_leaf.jpg\<close>, whose code is in the table.
\<close>

theorem generate_examples_lowercase_extension:
  assumes "ext \<noteq> []" and "\<forall>c \<in> set ext. c \<in> set ''abcdefghijklmnopqrstuvwxyz''"
    and "f = stem @ ''.'' @ ext"
  shows "re_match regexp f = None
       \<and> (\<forall>kr \<in> set (yields image_files). image_filename (snd kr) \<noteq> f)
       \<and> yields (before @ (f, fpath) # after) = yields before @ yields after
       \<and> ''0001'' \<in> fst ` set LABEL_MAPPING
       \<and> generate_examples [(''0001_leaf.jpg'', p)] = ([], None)"
proof (intro conjI)
  from assms(1,3) have "last f = last ext" by simp
  moreover from assms(1) have "last ext \<in> set ext" by simp
  ultimately have "last f \<in> set ''abcdefghijklmnopqrstuvwxyz''" using assms(2) by simp
  then have "last f \<noteq> CHR ''G'' \<and> last f \<noteq> newline" by (auto simp: newline_def)
  then show none: "re_match regexp f = None"
    using re_match_regexp_last [of f] by (cases "re_match regexp f") auto
  then have e: "emitted (f, q) = None" for q :: 'b
    by (simp add: emitted_def)
  show "\<forall>kr \<in> set (yields image_files). image_filename (snd kr) \<noteq> f"
  proof (intro ballI notI)
    fix kr assume kr: "kr \<in> set (yields image_files)" and fn: "image_filename (snd kr) = f"
    from kr obtain x where x: "emitted x = Some kr" unfolding set_yields by blast
    then have em: "emitted (fst x, snd x) = Some (fst kr, snd kr)" by simp
    from emitted_Some [OF em] have "image_filename (snd kr) = fst x" by blast
    with fn em have "emitted (f, snd x) = Some kr" by simp
    moreover from none have "emitted (f, snd x) = None" by (simp add: emitted_def)
    ultimately show False by simp
  qed
  from none have "emitted (f, fpath) = None" by (simp add: emitted_def)
  then show "yields (before @ (f, fpath) # after) = yields before @ yields after"
    by (simp add: yields_append yields_Cons)
  show "''0001'' \<in> fst ` set LABEL_MAPPING" by (simp add: LABEL_MAPPING_def)
  show "generate_examples [(''0001_leaf.jpg'', p)] = ([], None)"
    by (simp add: re_match_def regexp_def isdigit_def newline_def)
qed

theorem generate_examples_lowercase_extension_witness:
  "re_match regexp ''0001_leaf.jpg'' = None
   \<and> yields [(''0001_a.JPG'', ''cache/1''), (''0001_leaf.jpg'', ''cache/2'')]
       = yields [(''0001_a.JPG'', ''cache/1'')] @ yields []"
proof -
  have h1: "''jpg'' \<noteq> []" by simp
  have h2: "\<forall>c \<in> set ''jpg''. c \<in> set ''abcdefghijklmnopqrstuvwxyz''" by simp
  have h3: "''0001_leaf.jpg'' = ''0001_leaf'' @ ''.'' @ ''jpg''" by simp
  note t = generate_examples_lowercase_extension
    [OF h1 h2 h3, where before = "[(''0001_a.JPG'', ''cache/1'')]" and fpath = "''cache/2''"
       and after = "[]" and image_files = "[] :: (string \<times> string) list" and p = "''cache/2''"]
  from t have a: "re_match regexp ''0001_leaf.jpg'' = None" by (rule conjunct1)
  from t have "yields ([(''0001_a.JPG'', ''cache/1'')] @ (''0001_leaf.jpg'', ''cache/2'') # [])
       = yields [(''0001_a.JPG'', ''cache/1'')] @ yields []"
    by (rule conjunct2 [THEN conjunct2, THEN conjunct1])
  then have b: "yields [(''0001_a.JPG'', ''cache/1''), (''0001_leaf.jpg'', ''cache/2'')]
       = yields [(''0001_a.JPG'', ''cache/1'')] @ yields []" by (simp only: append.simps)
  from a b show ?thesis by (intro conjI)
qed

text \<open>
  C7. The label table has 22 entries; its codes are 4 digits each and pairwise distinct;
  its labels are pairwise distinct, so they are 22; the label of every record that
  \<^verbatim>\<open>_generate_examples\<close> yields is one of them; and the names that \<^verbatim>\<open>_info\<close> gives to
  \<^verbatim>\<open>ClassLabel\<close> are these labels, in the order of the table.
\<close>

theorem label_table_closed_set:
  "length LABEL_MAPPING = 22
   \<and> (\<forall>code \<in> set (map fst LABEL_MAPPING). length code = 4 \<and> (\<forall>c \<in> set code. isdigit c))
   \<and> distinct (map fst LABEL_MAPPING)
   \<and> distinct (map snd LABEL_MAPPING)
   \<and> card (set (map snd LABEL_MAPPING)) = 22
   \<and> (\<forall>kr \<in> set (yields image_files). label (snd kr) \<in> set (map snd LABEL_MAPPING))
   \<and> info_labels = Inr (map snd LABEL_MAPPING)"
proof (intro conjI)
  show "length LABEL_MAPPING = 22" by (rule length_LABEL_MAPPING)
  show "\<forall>code \<in> set (map fst LABEL_MAPPING). length code = 4 \<and> (\<forall>c \<in> set code. isdigit c)"
    using codes_numeric by blast
  show "distinct (map fst LABEL_MAPPING)" by (rule distinct_codes)
  show "distinct (map snd LABEL_MAPPING)" by (rule distinct_labels)
  show "card (set (map snd LABEL_MAPPING)) = 22"
    using distinct_card [OF distinct_labels] by (simp add: length_LABEL_MAPPING)
  show "\<forall>kr \<in> set (yields image_files). label (snd kr) \<in> set (map snd LABEL_MAPPING)"
  proof
    fix kr assume "kr \<in> set (yields image_files)"
    then obtain x where "emitted x = Some kr" unfolding set_yields by blast
    then have "emitted (fst x, snd x) = Some (fst kr, snd kr)" by simp
    from emitted_Some [OF this] obtain code where "(code, label (snd kr)) \<in> set LABEL_MAPPING"
      by blast
    then show "label (snd kr) \<in> set (map snd LABEL_MAPPING)" by force
  qed
  have "LABEL_MAPPING \<noteq> []" using length_LABEL_MAPPING by auto
  then show "info_labels = Inr (map snd LABEL_MAPPING)"
    by (simp add: info_labels_def zip_star_def index_def)
qed

theorem label_table_closed_set_witness:
  "yields [(''0001_leaf.JPG'', ''cache/1'')] =
      [(''Mango (P0) healthy/0001_leaf.JPG'',
        \<lparr>image_path = ''cache/1'', image_filename = ''0001_leaf.JPG'',
         label = ''Mango (P0) healthy''\<rparr>)]
   \<and> ''Mango (P0) healthy'' \<in> set (map snd LABEL_MAPPING)
   \<and> length (''0001'' :: string) = 4
   \<and> ''0001'' \<in> set (map fst LABEL_MAPPING)"
proof -
  have y: "yields [(''0001_leaf.JPG'', ''cache/1'')] =
      [(''Mango (P0) healthy/0001_leaf.JPG'',
        \<lparr>image_path = ''cache/1'', image_filename = ''0001_leaf.JPG'',
         label = ''Mango (P0) healthy''\<rparr>)]"
    by (simp add: yields_def re_match_def regexp_def isdigit_def newline_def
        contains_def getitem_def label_map_eq LABEL_MAPPING_def format_key_def)
  have c: "''0001'' \<in> set (map fst LABEL_MAPPING)" by (simp add: LABEL_MAPPING_def)
  note t = label_table_closed_set [of "[(''0001_leaf.JPG'', ''cache/1'')]"]
  from t have "\<forall>kr \<in> set (yields [(''0001_leaf.JPG'', ''cache/1'')]).
      label (snd kr) \<in> set (map snd LABEL_MAPPING)" by blast
  with y have l: "''Mango (P0) healthy'' \<in> set (map snd LABEL_MAPPING)" by simp
  from t c have n: "length (''0001'' :: string) = 4" by blast
  from y l n c show ?thesis by (intro conjI)
qed

text \<open>
  C8, as amended. A filename made of a code of the label table, an underscore, characters
  none of which is a newline, the suffix \<^verbatim>\<open>.JPG\<close> and one newline after it: the pattern
  matches it, capturing the code, and for every entry of that name \<^verbatim>\<open>_generate_examples\<close>
  yields the record of that entry, with the label of the code and a filename and key that
  keep the newline.
\<close>

theorem generate_examples_trailing_newline:
  assumes "(code, lbl) \<in> set LABEL_MAPPING" and "newline \<notin> set mid"
    and "f = code @ ''_'' @ mid @ ''.JPG'' @ [newline]"
    and "(f, fpath) \<in> set image_files"
  shows "re_match regexp f = Some code
       \<and> (format_key lbl f, \<lparr>image_path = fpath, image_filename = f, label = lbl\<rparr>)
           \<in> set (yields image_files)"
proof
  from assms(1) have "code \<in> set (map fst LABEL_MAPPING)" by force
  then have "length code = 4 \<and> (\<forall>c\<in>set code. isdigit c)" by (rule codes_numeric)
  with assms(2,3) show "re_match regexp f = Some code"
    unfolding re_match_regexp_iff by blast
  have "emitted (f, fpath) =
     Some (format_key lbl f, \<lparr>image_path = fpath, image_filename = f, label = lbl\<rparr>)"
    using assms(1,2) by (rule emitted_match) (simp add: assms(3))
  then show "(format_key lbl f, \<lparr>image_path = fpath, image_filename = f, label = lbl\<rparr>)
           \<in> set (yields image_files)"
    unfolding set_yields using assms(4) by (rule rev_bexI [rotated])
qed

theorem generate_examples_trailing_newline_witness:
  "(''0001'', ''Mango (P0) healthy'') \<in> set LABEL_MAPPING \<and> newline \<notin> set ''leaf''
   \<and> re_match regexp (''0001_leaf.JPG'' @ [newline]) = Some ''0001''
   \<and> (''Mango (P0) healthy/0001_leaf.JPG'' @ [newline],
        \<lparr>image_path = ''cache/1'', image_filename = ''0001_leaf.JPG'' @ [newline],
         label = ''Mango (P0) healthy''\<rparr>)
       \<in> set (yields [(''0001_leaf.JPG'' @ [newline], ''cache/1'')])"
proof -
  have h1: "(''0001'', ''Mango (P0) healthy'') \<in> set LABEL_MAPPING"
    by (simp add: LABEL_MAPPING_def)
  have h2: "newline \<notin> set ''leaf''" by (simp add: newline_def)
  have h3: "''0001_leaf.JPG'' @ [newline] = ''0001'' @ ''_'' @ ''leaf'' @ ''.JPG'' @ [newline]"
    by simp
  have h4: "(''0001_leaf.JPG'' @ [newline], ''cache/1'')
      \<in> set [(''0001_leaf.JPG'' @ [newline], ''cache/1'')]" by simp
  from generate_examples_trailing_newline [OF h1 h2 h3 h4] h1 h2 show ?thesis
    by (simp add: format_key_def)
qed

text \<open>
  C8 as the claim states it, with arbitrary characters between the underscore and the
  suffix, fails when one of them is a newline: for \<^verbatim>\<open>0001_\n.JPG\n\<close> nothing is yielded.
\<close>

theorem generate_examples_trailing_newline_counterexample:
  "(''0001'', ''Mango (P0) healthy'') \<in> set LABEL_MAPPING
   \<and> generate_examples [(''0001'' @ ''_'' @ [newline] @ ''.JPG'' @ [newline], ''cache/1'')]
       = ([], None)"
  by (simp add: LABEL_MAPPING_def re_match_def regexp_def isdigit_def newline_def)

section \<open>The manifest of URLs\<close>

lemma fold_update_other:
  "\<forall>l \<in> set ls. k l \<noteq> x \<Longrightarrow>
   map_of (fold (\<lambda>l d. AList.update (k l) (v l) d) ls d) x = map_of d x"
  by (induction ls arbitrary: d) (auto simp add: update_conv')

lemma fold_update_distinct:
  "distinct (map fst d) \<Longrightarrow>
   distinct (map fst (fold (\<lambda>l d. AList.update (k l) (v l) d) ls d))"
  by (induction ls arbitrary: d) (simp_all add: distinct_update)

text \<open>
  C9. Whatever the lines of the URL file are, the manifest is built (the construction has
  no failing branch) and no basename occurs twice among its keys. A line whose basename
  no later line has is the one the manifest maps that basename to: of several lines with
  one basename the last one gives the URL.
\<close>

theorem name_to_url_map_last_line_wins:
  assumes "lines = before @ l # after"
    and "\<forall>l' \<in> set after. basename (strip l') \<noteq> basename (strip l)"
  shows "map_of (name_to_url_map lines) (basename (strip l)) = Some (strip l)
       \<and> distinct (map fst (name_to_url_map lines))"
proof
  let ?f = "\<lambda>l d. AList.update (basename (strip l)) (strip l) d"
  have "name_to_url_map lines = fold ?f after (?f l (fold ?f before []))"
    by (simp add: name_to_url_map_def assms(1))
  then have "map_of (name_to_url_map lines) (basename (strip l))
      = map_of (?f l (fold ?f before [])) (basename (strip l))"
    using fold_update_other [of after "\<lambda>l. basename (strip l)" "basename (strip l)" strip]
      assms(2) by simp
  then show "map_of (name_to_url_map lines) (basename (strip l)) = Some (strip l)"
    by (simp add: update_conv')
  show "distinct (map fst (name_to_url_map lines))"
    unfolding name_to_url_map_def by (rule fold_update_distinct) simp
qed

theorem name_to_url_map_last_line_wins_witness:
  "basename (strip (''http://c/y.JPG'' @ [newline])) \<noteq> basename (strip (''http://b/x.JPG'' @ [newline]))
   \<and> basename (strip (''http://a/x.JPG'' @ [newline])) = basename (strip (''http://b/x.JPG'' @ [newline]))
   \<and> map_of (name_to_url_map [''http://a/x.JPG'' @ [newline], ''http://b/x.JPG'' @ [newline],
                               ''http://c/y.JPG'' @ [newline]]) ''x.JPG'' = Some ''http://b/x.JPG''
   \<and> name_to_url_map [''http://a/x.JPG'' @ [newline], ''http://b/x.JPG'' @ [newline],
                       ''http://c/y.JPG'' @ [newline]]
       = [(''x.JPG'', ''http://b/x.JPG''), (''y.JPG'', ''http://c/y.JPG'')]"
proof -
  note ev = strip_def isspace_def newline_def basename_def Let_def
  have h1: "[''http://a/x.JPG'' @ [newline], ''http://b/x.JPG'' @ [newline],
             ''http://c/y.JPG'' @ [newline]]
      = [''http://a/x.JPG'' @ [newline]] @ (''http://b/x.JPG'' @ [newline])
          # [''http://c/y.JPG'' @ [newline]]" by simp
  have h2: "\<forall>l' \<in> set [''http://c/y.JPG'' @ [newline]].
      basename (strip l') \<noteq> basename (strip (''http://b/x.JPG'' @ [newline]))"
    by (simp add: ev)
  have b: "basename ''http://b/x.JPG'' = ''x.JPG''"
    "strip (''http://b/x.JPG'' @ [newline]) = ''http://b/x.JPG''"
    by (simp_all add: ev)
  from name_to_url_map_last_line_wins [OF h1 h2]
  have m: "map_of (name_to_url_map [''http://a/x.JPG'' @ [newline],
      ''http://b/x.JPG'' @ [newline], ''http://c/y.JPG'' @ [newline]]) ''x.JPG''
        = Some ''http://b/x.JPG''"
    unfolding b by (rule conjunct1)
  have e: "name_to_url_map [''http://a/x.JPG'' @ [newline], ''http://b/x.JPG'' @ [newline],
                       ''http://c/y.JPG'' @ [newline]]
       = [(''x.JPG'', ''http://b/x.JPG''), (''y.JPG'', ''http://c/y.JPG'')]"
    by (simp add: name_to_url_map_def ev)
  have n: "basename (strip (''http://c/y.JPG'' @ [newline]))
      \<noteq> basename (strip (''http://b/x.JPG'' @ [newline]))"
    "basename (strip (''http://a/x.JPG'' @ [newline]))
      = basename (strip (''http://b/x.JPG'' @ [newline]))"
    by (simp_all add: ev)
  from n m e show ?thesis by (intro conjI)
qed

section \<open>Order of the records\<close>

lemma yields_entries:
  "map (\<lambda>kr. (image_filename (snd kr), image_path (snd kr))) (yields image_files)
     = filter (\<lambda>item. emitted item \<noteq> None) image_files"
proof (induction image_files)
  case Nil
  then show ?case by (simp add: yields_Nil)
next
  case (Cons item rest)
  show ?case
  proof (cases "emitted item")
    case None
    then show ?thesis by (simp add: yields_Cons Cons.IH)
  next
    case (Some kr)
    then have "emitted (fst item, snd item) = Some (fst kr, snd kr)" by simp
    from emitted_Some [OF this]
    have "(image_filename (snd kr), image_path (snd kr)) = item" by auto
    with Some show ?thesis by (simp add: yields_Cons Cons.IH)
  qed
qed

text \<open>
  C10. \<^verbatim>\<open>_generate_examples\<close> reads its argument and the constant label table and nothing
  else: on equal inputs it yields equal sequences of pairs and ends the same way. The
  pairs come in the iteration order of the input: the filenames and paths of the records
  yielded are the entries of the input that yield a record, in the order of the input,
  and the sequence yielded is the loop body applied to each entry in turn.
\<close>

theorem generate_examples_deterministic_in_order:
  "(image_files = image_files' \<longrightarrow> generate_examples image_files = generate_examples image_files')
   \<and> map (\<lambda>kr. (image_filename (snd kr), image_path (snd kr))) (yields image_files)
       = filter (\<lambda>item. emitted item \<noteq> None) image_files
   \<and> yields image_files = List.map_filter emitted image_files
   \<and> yields (before @ after) = yields before @ yields after"
  by (simp add: yields_entries yields_eq [symmetric] yields_append)

theorem generate_examples_deterministic_in_order_witness:
  "generate_examples [(''0002_b.JPG'', ''cache/1''), (''0099_x.JPG'', ''cache/2''),
                      (''0001_a.JPG'', ''cache/3'')]
     = generate_examples ([(''0002_b.JPG'', ''cache/1'')]
                            @ [(''0099_x.JPG'', ''cache/2''), (''0001_a.JPG'', ''cache/3'')])
   \<and> map (\<lambda>kr. (image_filename (snd kr), image_path (snd kr)))
         (yields [(''0002_b.JPG'', ''cache/1''), (''0099_x.JPG'', ''cache/2''),
                  (''0001_a.JPG'', ''cache/3'')])
       = [(''0002_b.JPG'', ''cache/1''), (''0001_a.JPG'', ''cache/3'')]"
proof -
  let ?files = "[(''0002_b.JPG'', ''cache/1''), (''0099_x.JPG'', ''cache/2''),
                 (''0001_a.JPG'', ''cache/3'')]"
  note t = generate_examples_deterministic_in_order
    [of ?files "[(''0002_b.JPG'', ''cache/1'')]
                  @ [(''0099_x.JPG'', ''cache/2''), (''0001_a.JPG'', ''cache/3'')]" "[]" "[]"]
  have eq: "?files = [(''0002_b.JPG'', ''cache/1'')]
                  @ [(''0099_x.JPG'', ''cache/2''), (''0001_a.JPG'', ''cache/3'')]" by simp
  from t eq have a: "generate_examples ?files = generate_examples ([(''0002_b.JPG'', ''cache/1'')]
                  @ [(''0099_x.JPG'', ''cache/2''), (''0001_a.JPG'', ''cache/3'')])"
    by blast
  have e: "emitted (''0002_b.JPG'', ''cache/1'') \<noteq> None"
    "emitted (''0099_x.JPG'', ''cache/2'') = None"
    "emitted (''0001_a.JPG'', ''cache/3'') \<noteq> None"
    by (simp_all add: emitted_def re_match_def regexp_def isdigit_def newline_def
        label_map_eq LABEL_MAPPING_def)
  from t have "map (\<lambda>kr. (image_filename (snd kr), image_path (snd kr))) (yields ?files)
       = filter (\<lambda>item. emitted item \<noteq> None) ?files"
    by (rule conjunct2 [THEN conjunct1])
  also have "\<dots> = [(''0002_b.JPG'', ''cache/1''), (''0001_a.JPG'', ''cache/3'')]"
    using e by simp
  finally show ?thesis using a by (intro conjI)
qed

end
